theory Spec2Isabelle
  imports Main "HOL-Library.Word" "HOL-Library.Monad_Syntax" "HOL-Library.Sublist"
begin

unbundle bit_operations_syntax

section \<open>Data model of \<^verbatim>\<open>zenkaku.cc\<close>\<close>

text \<open>
  A \<^verbatim>\<open>std::string\<close> is a sequence of 8-bit \<^verbatim>\<open>char\<close>s, a wide string a sequence of
  32-bit \<^verbatim>\<open>wchar_t\<close>s (the program asks for the glibc locale \<^verbatim>\<open>en_US.utf8\<close>, where
  \<^verbatim>\<open>wchar_t\<close> has 32 bits). Whether plain \<^verbatim>\<open>char\<close> is signed is left to the platform by
  C++ (signed on x86, unsigned on ARM), so every function that computes with a plain
  \<^verbatim>\<open>char\<close> takes the flag \<open>sg\<close> (\<open>True\<close>: \<^verbatim>\<open>char\<close> is signed).
  Indices are \<^verbatim>\<open>size_t\<close>; they stay below \<^verbatim>\<open>input.length() + 3\<close>, far from
  \<open>2 ^ 64\<close>, and are modelled by \<open>nat\<close>.
\<close>

type_synonym byte = "8 word"
type_synonym wchar = "32 word"

definition bytes_of :: "string \<Rightarrow> byte list" where
  "bytes_of s = map of_char s"

definition char_int :: "bool \<Rightarrow> byte \<Rightarrow> int" where
  \<comment> \<open>the value of a plain \<^verbatim>\<open>char\<close> after integral promotion\<close>
  "char_int sg ch = (if sg then sint ch else uint ch)"

definition to_char :: "int \<Rightarrow> byte" where
  \<comment> \<open>conversion of an \<^verbatim>\<open>int\<close> to \<^verbatim>\<open>char\<close>: the low eight bits\<close>
  "to_char n = word_of_int n"

definition to_wchar :: "int \<Rightarrow> wchar" where
  \<comment> \<open>\<^verbatim>\<open>static_cast<wchar_t>\<close>: the low 32 bits, so a negative \<^verbatim>\<open>char\<close> is sign-extended\<close>
  "to_wchar n = word_of_int n"

definition is_ascii_digit :: "bool \<Rightarrow> byte \<Rightarrow> bool" where
  \<comment> \<open>\<^verbatim>\<open>ch >= '0' && ch <= '9'\<close>\<close>
  "is_ascii_digit sg ch \<longleftrightarrow> 0x30 \<le> char_int sg ch \<and> char_int sg ch \<le> 0x39"

datatype converter =
  FullWidthConverter | CircleConverter | RomanConverter | ChineseConverter | ThaiConverter

fun getName :: "converter \<Rightarrow> string" where
  "getName FullWidthConverter = ''fullwidth''"
| "getName CircleConverter = ''circle''"
| "getName RomanConverter = ''roman''"
| "getName ChineseConverter = ''chinese''"
| "getName ThaiConverter = ''thai''"

section \<open>\<^verbatim>\<open>convert\<close>: ASCII digits to decorative digits\<close>

text \<open>
  Each \<^verbatim>\<open>convert\<close> walks the input \<^verbatim>\<open>char\<close> by \<^verbatim>\<open>char\<close> and writes wide characters to
  the stream it is given; the model returns the wide characters written, in order.
\<close>

primrec FullWidth_convert :: "bool \<Rightarrow> byte list \<Rightarrow> wchar list" where
  "FullWidth_convert sg [] = []"
| "FullWidth_convert sg (ch # input) =
     (if is_ascii_digit sg ch
      then [to_wchar (0xFF10 + (char_int sg ch - 0x30))]
      else [to_wchar (char_int sg ch)]) @ FullWidth_convert sg input"

primrec Circle_convert :: "bool \<Rightarrow> byte list \<Rightarrow> wchar list" where
  "Circle_convert sg [] = []"
| "Circle_convert sg (ch # input) =
     (if is_ascii_digit sg ch
      then [if char_int sg ch = 0x30 then 0x24EA
            else to_wchar (0x2460 + (char_int sg ch - 0x31))]
      else [to_wchar (char_int sg ch)]) @ Circle_convert sg input"

definition romanNumerals :: "wchar list list" where
  "romanNumerals =
     [[0xFF10], [0x2160], [0x2161], [0x2162], [0x2163],
      [0x2164], [0x2165], [0x2166], [0x2167], [0x2168]]"

definition chineseNumerals :: "wchar list list" where
  "chineseNumerals =
     [[0x3007], [0x4E00], [0x4E8C], [0x4E09], [0x56DB],
      [0x4E94], [0x516D], [0x4E03], [0x516B], [0x4E5D]]"

definition thaiNumerals :: "wchar list list" where
  "thaiNumerals =
     [[0x0E50], [0x0E51], [0x0E52], [0x0E53], [0x0E54],
      [0x0E55], [0x0E56], [0x0E57], [0x0E58], [0x0E59]]"

text \<open>
  The three table-driven converters differ in the table only. The index
  \<^verbatim>\<open>ch - '0'\<close> is read under the guard \<^verbatim>\<open>ch >= '0' && ch <= '9'\<close>, so it is within the
  ten entries.
\<close>

primrec table_convert :: "wchar list list \<Rightarrow> bool \<Rightarrow> byte list \<Rightarrow> wchar list" where
  "table_convert numerals sg [] = []"
| "table_convert numerals sg (ch # input) =
     (if is_ascii_digit sg ch
      then numerals ! nat (char_int sg ch - 0x30)
      else [to_wchar (char_int sg ch)]) @ table_convert numerals sg input"

definition Roman_convert :: "bool \<Rightarrow> byte list \<Rightarrow> wchar list" where
  "Roman_convert = table_convert romanNumerals"

definition Chinese_convert :: "bool \<Rightarrow> byte list \<Rightarrow> wchar list" where
  "Chinese_convert = table_convert chineseNumerals"

definition Thai_convert :: "bool \<Rightarrow> byte list \<Rightarrow> wchar list" where
  "Thai_convert = table_convert thaiNumerals"

fun convert :: "converter \<Rightarrow> bool \<Rightarrow> byte list \<Rightarrow> wchar list" where
  "convert FullWidthConverter = FullWidth_convert"
| "convert CircleConverter = Circle_convert"
| "convert RomanConverter = Roman_convert"
| "convert ChineseConverter = Chinese_convert"
| "convert ThaiConverter = Thai_convert"

subsection \<open>The wide output stream\<close>

text \<open>
  \<^verbatim>\<open>main\<close> hands \<^verbatim>\<open>std::wcout\<close>, imbued with \<^verbatim>\<open>en_US.utf8\<close>, to \<^verbatim>\<open>convert\<close>: the stream
  turns every wide character into its UTF-8 bytes. A value that is no Unicode scalar
  value has no UTF-8 form; the stream then fails and writes nothing more.
  \<open>wcout_bytes\<close> returns the bytes that reach the output and whether the stream is
  still good. The wide characters a \<^verbatim>\<open>convert\<close> writes are the table entries (below
  \<open>0x10000\<close>), the bytes below \<open>0x80\<close>, and for a byte from \<open>0x80\<close> on either its
  value (unsigned \<^verbatim>\<open>char\<close>) or its sign extension, from \<open>0xFFFFFF80\<close> on (signed
  \<^verbatim>\<open>char\<close>), which is beyond every code point.
\<close>

definition utf8_encode :: "wchar \<Rightarrow> byte list option" where
  "utf8_encode w =
     (if w < 0x80 then Some [ucast w]
      else if w < 0x800 then
        Some [0xC0 OR ucast (drop_bit 6 w), 0x80 OR (ucast w AND 0x3F)]
      else if 0xD800 \<le> w \<and> w \<le> 0xDFFF then None
      else if w < 0x10000 then
        Some [0xE0 OR ucast (drop_bit 12 w),
              0x80 OR (ucast (drop_bit 6 w) AND 0x3F),
              0x80 OR (ucast w AND 0x3F)]
      else if w < 0x110000 then
        Some [0xF0 OR ucast (drop_bit 18 w),
              0x80 OR (ucast (drop_bit 12 w) AND 0x3F),
              0x80 OR (ucast (drop_bit 6 w) AND 0x3F),
              0x80 OR (ucast w AND 0x3F)]
      else None)"

fun wcout_bytes :: "wchar list \<Rightarrow> byte list \<times> bool" where
  "wcout_bytes [] = ([], True)"
| "wcout_bytes (w # ws) =
     (case utf8_encode w of
        None \<Rightarrow> ([], False)
      | Some bs \<Rightarrow> (bs @ fst (wcout_bytes ws), snd (wcout_bytes ws)))"

definition encode :: "converter \<Rightarrow> bool \<Rightarrow> byte list \<Rightarrow> byte list \<times> bool" where
  \<comment> \<open>\<^verbatim>\<open>converter->convert(text, std::wcout)\<close>\<close>
  "encode c sg text = wcout_bytes (convert c sg text)"

section \<open>\<^verbatim>\<open>reverse\<close>: decorative digits back to ASCII\<close>

text \<open>
  \<open>rd\<close> is the read \<^verbatim>\<open>input[i]\<close>. It returns \<open>None\<close> for every \<open>i\<close> that is not the
  index of a character of \<open>input\<close>, and every function that reads passes the \<open>None\<close>
  on: a result \<open>Some\<close> says that no read left the string. (C++ defines the read at
  \<^verbatim>\<open>i == input.length()\<close> too, as the terminating zero; it counts as a read past the
  end here.) \<open>andalso\<close> is the short-circuit \<^verbatim>\<open>&&\<close>: its second operand is not
  evaluated when the first is false.
\<close>

definition rd :: "byte list \<Rightarrow> nat \<Rightarrow> byte option" where
  "rd input i = (if i < length input then Some (input ! i) else None)"

definition test :: "byte list \<Rightarrow> nat \<Rightarrow> (int \<Rightarrow> bool) \<Rightarrow> bool option" where
  \<comment> \<open>a comparison on \<^verbatim>\<open>static_cast<unsigned char>(input[i])\<close>\<close>
  "test input i P = map_option (\<lambda>b. P (uint b)) (rd input i)"

definition andalso :: "bool option \<Rightarrow> bool option \<Rightarrow> bool option" where
  "andalso a b = (case a of None \<Rightarrow> None | Some x \<Rightarrow> if x then b else Some False)"

definition ifM :: "bool option \<Rightarrow> 'a option \<Rightarrow> 'a option \<Rightarrow> 'a option" where
  "ifM c t e = (case c of None \<Rightarrow> None | Some x \<Rightarrow> if x then t else e)"

text \<open>
  One iteration of each scan loop, on the state \<open>(i, os)\<close>: the scan position and the
  bytes written to the narrow output stream so far.
\<close>

definition FullWidth_reverse_body ::
  "byte list \<Rightarrow> nat \<times> byte list \<Rightarrow> (nat \<times> byte list) option" where
  "FullWidth_reverse_body input st = (case st of (i, os) \<Rightarrow>
     ifM (andalso (Some (i + 2 < length input))
         (andalso (test input i (\<lambda>u. u = 0xEF))
         (andalso (test input (i + 1) (\<lambda>u. u = 0xBC))
         (andalso (test input (i + 2) (\<lambda>u. 0x90 \<le> u))
                  (test input (i + 2) (\<lambda>u. u \<le> 0x99))))))
       (do { b \<leftarrow> rd input (i + 2);
             Some (i + 3, os @ [to_char (0x30 + (uint b - 0x90))]) })
       (do { b \<leftarrow> rd input i;
             Some (i + 1, os @ [b]) }))"

text \<open>
  The circle loop is \<^verbatim>\<open>for (...; ++i)\<close>: the branches add 2 or nothing, and the
  increment of the loop header follows. Its digit arithmetic is on the plain
  \<^verbatim>\<open>char\<close> \<^verbatim>\<open>input[i + 2]\<close>, without the cast to \<^verbatim>\<open>unsigned char\<close>.
\<close>

definition Circle_reverse_body ::
  "bool \<Rightarrow> byte list \<Rightarrow> nat \<times> byte list \<Rightarrow> (nat \<times> byte list) option" where
  "Circle_reverse_body sg input st = (case st of (i, os) \<Rightarrow>
     do { (i1, os1) \<leftarrow>
            ifM (andalso (Some (i + 2 < length input))
                (andalso (test input i (\<lambda>u. u = 0xE2))
                (andalso (test input (i + 1) (\<lambda>u. u = 0x91))
                (andalso (test input (i + 2) (\<lambda>u. 0xA0 \<le> u))
                         (test input (i + 2) (\<lambda>u. u \<le> 0xA8))))))
              (do { b \<leftarrow> rd input (i + 2);
                    Some (i + 2, os @ [to_char (0x31 + (char_int sg b - 0xA0))]) })
              (ifM (andalso (Some (i + 2 < length input))
                   (andalso (test input i (\<lambda>u. u = 0xE2))
                   (andalso (test input (i + 1) (\<lambda>u. u = 0x92))
                            (test input (i + 2) (\<lambda>u. u = 0xAA)))))
                 (Some (i + 2, os @ [0x30]))
                 (do { b \<leftarrow> rd input i;
                       Some (i, os @ [b]) }));
          Some (i1 + 1, os1) })"

text \<open>
  The Roman, Chinese and Thai loops keep a flag \<^verbatim>\<open>found\<close>; the first block returns
  the state together with the flag, the second block copies one byte when it is unset.
\<close>

definition copy_unless_found ::
  "byte list \<Rightarrow> nat \<times> byte list \<times> bool \<Rightarrow> (nat \<times> byte list) option" where
  "copy_unless_found input st = (case st of (i, os, found) \<Rightarrow>
     if \<not> found then do { b \<leftarrow> rd input i; Some (i + 1, os @ [b]) }
     else Some (i, os))"

definition Roman_reverse_body ::
  "byte list \<Rightarrow> nat \<times> byte list \<Rightarrow> (nat \<times> byte list) option" where
  "Roman_reverse_body input st = (case st of (i, os) \<Rightarrow>
     do { st1 \<leftarrow>
            (if i + 2 < length input then
               ifM (andalso (test input i (\<lambda>u. u = 0xEF))
                   (andalso (test input (i + 1) (\<lambda>u. u = 0xBC))
                            (test input (i + 2) (\<lambda>u. u = 0x90))))
                 (Some (i + 3, os @ [0x30], True))
                 (ifM (andalso (test input i (\<lambda>u. u = 0xE2))
                      (andalso (test input (i + 1) (\<lambda>u. u = 0x85))
                               (test input (i + 2) (\<lambda>u. u = 0xA0))))
                    (Some (i + 3, os @ [0x31], True))
                    (Some (i, os, False)))
             else Some (i, os, False));
          copy_unless_found input st1 })"

definition Chinese_reverse_body ::
  "byte list \<Rightarrow> nat \<times> byte list \<Rightarrow> (nat \<times> byte list) option" where
  "Chinese_reverse_body input st = (case st of (i, os) \<Rightarrow>
     do { st1 \<leftarrow>
            (if i + 2 < length input then
               ifM (andalso (test input i (\<lambda>u. u = 0xE3))
                   (andalso (test input (i + 1) (\<lambda>u. u = 0x80))
                            (test input (i + 2) (\<lambda>u. u = 0x87))))
                 (Some (i + 3, os @ [0x30], True))
                 (ifM (andalso (test input i (\<lambda>u. u = 0xE4))
                      (andalso (test input (i + 1) (\<lambda>u. u = 0xB8))
                               (test input (i + 2) (\<lambda>u. u = 0x80))))
                    (Some (i + 3, os @ [0x31], True))
                    (Some (i, os, False)))
             else Some (i, os, False));
          copy_unless_found input st1 })"

definition Thai_reverse_body ::
  "byte list \<Rightarrow> nat \<times> byte list \<Rightarrow> (nat \<times> byte list) option" where
  "Thai_reverse_body input st = (case st of (i, os) \<Rightarrow>
     do { st1 \<leftarrow>
            (if i + 2 < length input then
               ifM (andalso (test input i (\<lambda>u. u = 0xE0))
                   (andalso (test input (i + 1) (\<lambda>u. u = 0xB9))
                   (andalso (test input (i + 2) (\<lambda>u. 0x90 \<le> u))
                            (test input (i + 2) (\<lambda>u. u \<le> 0x99)))))
                 (do { b \<leftarrow> rd input (i + 2);
                       Some (i + 3, os @ [to_char (0x30 + (uint b - 0x90))], True) })
                 (Some (i, os, False))
             else Some (i, os, False));
          copy_unless_found input st1 })"

fun reverse_body ::
  "converter \<Rightarrow> bool \<Rightarrow> byte list \<Rightarrow> nat \<times> byte list \<Rightarrow> (nat \<times> byte list) option" where
  "reverse_body FullWidthConverter sg = FullWidth_reverse_body"
| "reverse_body CircleConverter sg = Circle_reverse_body sg"
| "reverse_body RomanConverter sg = Roman_reverse_body"
| "reverse_body ChineseConverter sg = Chinese_reverse_body"
| "reverse_body ThaiConverter sg = Thai_reverse_body"

text \<open>
  What one iteration does, read off the five bodies: \<open>match3\<close> is the test each body
  makes on the three bytes at the scan position and the ASCII digit it writes,
  \<open>step_of\<close> the resulting state. Every body is its \<open>step_of\<close> whenever the loop
  condition \<^verbatim>\<open>i < input.length()\<close> holds (lemma \<open>reverse_body_eq\<close>).
\<close>

fun match3 :: "converter \<Rightarrow> bool \<Rightarrow> byte \<Rightarrow> byte \<Rightarrow> byte \<Rightarrow> byte option" where
  "match3 FullWidthConverter sg b0 b1 b2 =
     (if b0 = 0xEF \<and> b1 = 0xBC \<and> 0x90 \<le> b2 \<and> b2 \<le> 0x99
      then Some (to_char (0x30 + (uint b2 - 0x90))) else None)"
| "match3 CircleConverter sg b0 b1 b2 =
     (if b0 = 0xE2 \<and> b1 = 0x91 \<and> 0xA0 \<le> b2 \<and> b2 \<le> 0xA8
      then Some (to_char (0x31 + (char_int sg b2 - 0xA0)))
      else if b0 = 0xE2 \<and> b1 = 0x92 \<and> b2 = 0xAA then Some 0x30 else None)"
| "match3 RomanConverter sg b0 b1 b2 =
     (if b0 = 0xEF \<and> b1 = 0xBC \<and> b2 = 0x90 then Some 0x30
      else if b0 = 0xE2 \<and> b1 = 0x85 \<and> b2 = 0xA0 then Some 0x31 else None)"
| "match3 ChineseConverter sg b0 b1 b2 =
     (if b0 = 0xE3 \<and> b1 = 0x80 \<and> b2 = 0x87 then Some 0x30
      else if b0 = 0xE4 \<and> b1 = 0xB8 \<and> b2 = 0x80 then Some 0x31 else None)"
| "match3 ThaiConverter sg b0 b1 b2 =
     (if b0 = 0xE0 \<and> b1 = 0xB9 \<and> 0x90 \<le> b2 \<and> b2 \<le> 0x99
      then Some (to_char (0x30 + (uint b2 - 0x90))) else None)"

definition match_at :: "converter \<Rightarrow> bool \<Rightarrow> byte list \<Rightarrow> nat \<Rightarrow> byte option" where
  "match_at c sg input i =
     (if i + 2 < length input
      then match3 c sg (input ! i) (input ! (i + 1)) (input ! (i + 2)) else None)"

definition step_of ::
  "converter \<Rightarrow> bool \<Rightarrow> byte list \<Rightarrow> nat \<times> byte list \<Rightarrow> nat \<times> byte list" where
  "step_of c sg input st = (case st of (i, os) \<Rightarrow>
     (case match_at c sg input i of
        Some d \<Rightarrow> (i + 3, os @ [d])
      | None \<Rightarrow> (i + 1, os @ [input ! i])))"

text \<open>
  The scan loop \<^verbatim>\<open>for (size_t i = 0; i < input.length();)\<close> around the body of the
  converter's class. It ends because every iteration moves \<open>i\<close> forward.
\<close>

function reverse_loop ::
  "converter \<Rightarrow> bool \<Rightarrow> byte list \<Rightarrow> nat \<times> byte list \<Rightarrow> byte list option" where
  "reverse_loop c sg input (i, os) =
     (if i < length input then
        (case reverse_body c sg input (i, os) of
           None \<Rightarrow> None
         | Some st \<Rightarrow> reverse_loop c sg input st)
      else Some os)"
  by pat_completeness auto
termination
proof (relation "measure (\<lambda>(c, sg, input, i, os). length input - i)")
  show "wf (measure (\<lambda>(c, sg, input, i, os). length input - i))"
    by simp
next
  fix c :: converter and sg :: bool and input :: "byte list" and i :: nat
    and st :: "nat \<times> byte list" and os' :: "byte list"
  assume i: "i < length input" and b: "reverse_body c sg input (i, os') = Some st"
  have "reverse_body c sg input (i, os') = Some (step_of c sg input (i, os'))"
  proof (cases c)
    case FullWidthConverter
    with i show ?thesis
      by (simp add: step_of_def match_at_def FullWidth_reverse_body_def
          ifM_def andalso_def test_def rd_def word_le_def word_uint_eq_iff)
  next
    case CircleConverter
    with i show ?thesis
      by (simp add: step_of_def match_at_def Circle_reverse_body_def
          ifM_def andalso_def test_def rd_def word_le_def word_uint_eq_iff)
  next
    case RomanConverter
    with i show ?thesis
      by (simp add: step_of_def match_at_def Roman_reverse_body_def copy_unless_found_def
          ifM_def andalso_def test_def rd_def word_le_def word_uint_eq_iff)
  next
    case ChineseConverter
    with i show ?thesis
      by (simp add: step_of_def match_at_def Chinese_reverse_body_def copy_unless_found_def
          ifM_def andalso_def test_def rd_def word_le_def word_uint_eq_iff)
  next
    case ThaiConverter
    with i show ?thesis
      by (simp add: step_of_def match_at_def Thai_reverse_body_def copy_unless_found_def
          ifM_def andalso_def test_def rd_def word_le_def word_uint_eq_iff)
  qed
  with b have "step_of c sg input (i, os') = st"
    by simp
  moreover from i have "i < fst (step_of c sg input (i, os'))"
    by (simp add: step_of_def match_at_def split: option.splits)
  ultimately have "i < fst st"
    by simp
  with i show "((c, sg, input, st), (c, sg, input, i, os'))
               \<in> measure (\<lambda>(c, sg, input, i, os). length input - i)"
    by (cases st) simp
qed

definition reverse :: "converter \<Rightarrow> bool \<Rightarrow> byte list \<Rightarrow> byte list option" where
  \<comment> \<open>\<^verbatim>\<open>converter->reverse(text, std::cout)\<close>: the bytes written\<close>
  "reverse c sg input = reverse_loop c sg input (0, [])"

text \<open>
  \<open>iterate n f st\<close> runs a loop body \<open>n\<close> times from the state \<open>st\<close>; it serves to
  count the iterations of the scan loop.
\<close>

primrec iterate :: "nat \<Rightarrow> ('s \<Rightarrow> 's option) \<Rightarrow> 's \<Rightarrow> 's option" where
  "iterate 0 f st = Some st"
| "iterate (Suc n) f st = (case f st of None \<Rightarrow> None | Some st' \<Rightarrow> iterate n f st')"

text \<open>
  The same scan on the list of the bytes not yet read: a view for the proofs, shown
  below to be what the loop computes.
\<close>

fun scan :: "converter \<Rightarrow> bool \<Rightarrow> byte list \<Rightarrow> byte list" where
  "scan c sg (b0 # b1 # b2 # rest) =
     (case match3 c sg b0 b1 b2 of
        Some d \<Rightarrow> d # scan c sg rest
      | None \<Rightarrow> b0 # scan c sg (b1 # b2 # rest))"
| "scan c sg bs = bs"

section \<open>The registry\<close>

type_synonym registry = "string \<rightharpoonup> converter"

definition registerConverter :: "registry \<Rightarrow> converter \<Rightarrow> registry" where
  "registerConverter converters converter = converters(getName converter \<mapsto> converter)"

definition ConverterRegistry :: registry where
  "ConverterRegistry =
     registerConverter (registerConverter (registerConverter (registerConverter
       (registerConverter Map.empty FullWidthConverter) CircleConverter) RomanConverter)
       ChineseConverter) ThaiConverter"

definition getConverter :: "registry \<Rightarrow> string \<Rightarrow> converter option" where
  \<comment> \<open>\<open>None\<close> is the \<^verbatim>\<open>nullptr\<close> returned when \<^verbatim>\<open>find\<close> reaches \<^verbatim>\<open>end()\<close>\<close>
  "getConverter converters name = converters name"

section \<open>Notions the properties are stated with\<close>

text \<open>
  The decorative digits of a converter are the byte sequences its \<^verbatim>\<open>convert\<close> produces
  for the ten ASCII digits; \<open>has_decorative\<close> says that one of them occurs in a byte
  sequence, \<open>round_trips\<close> that decoding the encoding of \<open>s\<close> gives \<open>s\<close> back.
\<close>

definition digits :: "byte list" where
  "digits = [0x30, 0x31, 0x32, 0x33, 0x34, 0x35, 0x36, 0x37, 0x38, 0x39]"

definition decorative :: "converter \<Rightarrow> bool \<Rightarrow> byte list list" where
  "decorative c sg = map (\<lambda>d. fst (encode c sg [d])) digits"

definition has_decorative :: "converter \<Rightarrow> bool \<Rightarrow> byte list \<Rightarrow> bool" where
  "has_decorative c sg s \<longleftrightarrow> (\<exists>p \<in> set (decorative c sg). sublist p s)"

definition round_trips :: "converter \<Rightarrow> bool \<Rightarrow> byte list \<Rightarrow> bool" where
  "round_trips c sg s \<longleftrightarrow> reverse c sg (fst (encode c sg s)) = Some s"

section \<open>The loop and the scan\<close>

lemma FullWidth_reverse_body_eq:
  "i < length input \<Longrightarrow>
   FullWidth_reverse_body input (i, os) = Some (step_of FullWidthConverter sg input (i, os))"
  by (simp add: step_of_def match_at_def FullWidth_reverse_body_def
      ifM_def andalso_def test_def rd_def word_le_def word_uint_eq_iff)

lemma Circle_reverse_body_eq:
  "i < length input \<Longrightarrow>
   Circle_reverse_body sg input (i, os) = Some (step_of CircleConverter sg input (i, os))"
  by (simp add: step_of_def match_at_def Circle_reverse_body_def
      ifM_def andalso_def test_def rd_def word_le_def word_uint_eq_iff)

lemma Roman_reverse_body_eq:
  "i < length input \<Longrightarrow>
   Roman_reverse_body input (i, os) = Some (step_of RomanConverter sg input (i, os))"
  by (simp add: step_of_def match_at_def Roman_reverse_body_def copy_unless_found_def
      ifM_def andalso_def test_def rd_def word_le_def word_uint_eq_iff)

lemma Chinese_reverse_body_eq:
  "i < length input \<Longrightarrow>
   Chinese_reverse_body input (i, os) = Some (step_of ChineseConverter sg input (i, os))"
  by (simp add: step_of_def match_at_def Chinese_reverse_body_def copy_unless_found_def
      ifM_def andalso_def test_def rd_def word_le_def word_uint_eq_iff)

lemma Thai_reverse_body_eq:
  "i < length input \<Longrightarrow>
   Thai_reverse_body input (i, os) = Some (step_of ThaiConverter sg input (i, os))"
  by (simp add: step_of_def match_at_def Thai_reverse_body_def copy_unless_found_def
      ifM_def andalso_def test_def rd_def word_le_def word_uint_eq_iff)

lemma reverse_body_eq:
  "i < length input \<Longrightarrow>
   reverse_body c sg input (i, os) = Some (step_of c sg input (i, os))"
  by (cases c)
     (simp_all only: reverse_body.simps FullWidth_reverse_body_eq Circle_reverse_body_eq
        Roman_reverse_body_eq Chinese_reverse_body_eq Thai_reverse_body_eq)

lemma step_of_advance:
  "i < length input \<Longrightarrow>
   i < fst (step_of c sg input (i, os)) \<and> fst (step_of c sg input (i, os)) \<le> length input"
  by (simp add: step_of_def match_at_def split: option.splits)

lemma scan_short: "length bs < 3 \<Longrightarrow> scan c sg bs = bs"
  by (cases "(c, sg, bs)" rule: scan.cases) simp_all

lemma drop3:
  "i + 2 < length input \<Longrightarrow>
   drop i input = input ! i # input ! (i + 1) # input ! (i + 2) # drop (i + 3) input"
proof -
  assume a: "i + 2 < length input"
  then have "drop i input = input ! i # drop (Suc i) input"
    by (simp add: Cons_nth_drop_Suc)
  also from a have "drop (Suc i) input = input ! (Suc i) # drop (Suc (Suc i)) input"
    by (simp add: Cons_nth_drop_Suc)
  also from a have "drop (Suc (Suc i)) input = input ! (Suc (Suc i)) # drop (Suc (Suc (Suc i))) input"
    by (simp add: Cons_nth_drop_Suc)
  finally show ?thesis by (simp add: numeral_3_eq_3 numeral_2_eq_2)
qed

lemma scan_drop_step:
  assumes "i < length input"
  shows "snd (step_of c sg input (i, os)) @ scan c sg (drop (fst (step_of c sg input (i, os))) input)
         = os @ scan c sg (drop i input)"
proof (cases "i + 2 < length input")
  case True
  have d1: "drop (Suc i) input = input ! Suc i # input ! Suc (Suc i) # drop (i + 3) input"
    using drop3 [OF True] by (metis drop_Suc_Cons Suc_eq_plus1 list.sel(3) tl_drop add_2_eq_Suc')
  show ?thesis
    using True by (simp add: step_of_def match_at_def drop3 [OF True] d1 split: option.splits)
next
  case False
  with assms have "length (drop (i + 1) input) < 3" "length (drop i input) < 3" by simp_all
  then have "scan c sg (drop (i + 1) input) = drop (i + 1) input"
    "scan c sg (drop i input) = drop i input"
    by (simp_all only: scan_short)
  with False assms show ?thesis
    by (simp add: step_of_def match_at_def Cons_nth_drop_Suc)
qed

lemma reverse_loop_scan:
  "fst st \<le> length input \<Longrightarrow>
   reverse_loop c sg input st = Some (snd st @ scan c sg (drop (fst st) input))"
proof (induction c sg input st rule: reverse_loop.induct)
  case (1 c sg input i os)
  show ?case
  proof (cases "i < length input")
    case False
    with "1.prems" show ?thesis by simp
  next
    case True
    let ?st = "step_of c sg input (i, os)"
    have b: "reverse_body c sg input (i, os) = Some ?st"
      using True by (rule reverse_body_eq)
    have "fst ?st \<le> length input"
      using step_of_advance [OF True] by simp
    with "1.IH" [OF True b]
    have "reverse_loop c sg input ?st = Some (snd ?st @ scan c sg (drop (fst ?st) input))" .
    then show ?thesis
      using True b scan_drop_step [OF True, of c sg os] by simp
  qed
qed

lemma reverse_scan: "reverse c sg input = Some (scan c sg input)"
  using reverse_loop_scan [of "(0, [])" input c sg]
  by (simp add: reverse_def del: reverse_loop.simps)

lemma length_scan: "length (scan c sg bs) \<le> length bs"
  by (induction c sg bs rule: scan.induct) (auto split: option.splits)

section \<open>Facts about bytes\<close>

lemma ascii_sint: "(b :: byte) < 0x80 \<Longrightarrow> sint b = uint b"
proof -
  assume "b < 0x80"
  then have "uint b < 2 ^ 7" by (simp add: word_less_def)
  moreover have "- (2 ^ 7) \<le> uint b" by (rule order_trans [of _ 0]) simp_all
  ultimately have "signed_take_bit 7 (uint b) = uint b"
    by (rule signed_take_bit_int_eq_self [rotated])
  then show ?thesis by (simp add: sint_uint)
qed

lemma sint_nonneg_uint: "0 \<le> sint (b :: byte) \<Longrightarrow> sint b = uint b"
  using sint_lt [of b] by (simp add: uint_sint take_bit_int_eq_self)

lemma ascii_char_int: "(b :: byte) < 0x80 \<Longrightarrow> char_int sg b = uint b"
  by (simp add: char_int_def ascii_sint)

lemma is_ascii_digit_iff: "is_ascii_digit sg b \<longleftrightarrow> 0x30 \<le> b \<and> b \<le> 0x39"
proof (cases sg)
  case False
  then show ?thesis by (simp add: is_ascii_digit_def char_int_def word_le_def)
next
  case True
  show ?thesis
  proof
    assume "is_ascii_digit sg b"
    with True have s: "0x30 \<le> sint b" "sint b \<le> 0x39"
      by (simp_all add: is_ascii_digit_def char_int_def)
    then have "sint b = uint b" by (intro sint_nonneg_uint) simp
    with s show "0x30 \<le> b \<and> b \<le> 0x39" by (simp add: word_le_def)
  next
    assume a: "0x30 \<le> b \<and> b \<le> 0x39"
    then have "b < 0x80" by (simp add: word_le_def word_less_def)
    then have "sint b = uint b" by (rule ascii_sint)
    with a True show "is_ascii_digit sg b"
      by (simp add: is_ascii_digit_def char_int_def word_le_def)
  qed
qed

lemma digit_byte_cases:
  "(0x30 \<le> b \<and> b \<le> 0x39) \<longleftrightarrow>
   (b :: byte) \<in> {0x30, 0x31, 0x32, 0x33, 0x34, 0x35, 0x36, 0x37, 0x38, 0x39}"
proof -
  have "(0x30 \<le> uint b \<and> uint b \<le> 0x39) \<longleftrightarrow>
        uint b \<in> {0x30, 0x31, 0x32, 0x33, 0x34, 0x35, 0x36, 0x37, 0x38, 0x39}"
    by (simp only: insert_iff empty_iff) arith
  then show ?thesis by (simp add: word_le_def word_uint_eq_iff)
qed

lemma utf8_ascii: "(b :: byte) < 0x80 \<Longrightarrow> utf8_encode (to_wchar (uint b)) = Some [b]"
proof -
  assume a: "b < 0x80"
  have "to_wchar (uint b) = ucast b" by (simp add: to_wchar_def)
  moreover have "(ucast b :: wchar) < 0x80"
    using a by (simp add: word_less_def uint_up_ucast is_up)
  moreover have "(ucast (ucast b :: wchar) :: byte) = b"
    by (simp add: ucast_up_ucast_id is_up)
  ultimately show ?thesis by (simp add: utf8_encode_def)
qed

section \<open>Definedness, bounds and termination\<close>

lemma length_table_convert:
  "\<forall>ws \<in> set numerals. length ws = 1 \<Longrightarrow> length numerals = 10 \<Longrightarrow>
   length (table_convert numerals sg s) = length s"
proof (induction s)
  case Nil
  then show ?case by simp
next
  case (Cons ch s)
  have "length (numerals ! nat (char_int sg ch - 0x30)) = 1" if "is_ascii_digit sg ch"
  proof -
    from that have "nat (char_int sg ch - 0x30) < 10"
      unfolding is_ascii_digit_def by linarith
    with Cons.prems show ?thesis by simp
  qed
  with Cons show ?case by simp
qed

lemma length_convert: "length (convert c sg s) = length s"
proof (cases c)
  case FullWidthConverter
  then show ?thesis by (induction s) simp_all
next
  case CircleConverter
  then show ?thesis by (induction s) simp_all
next
  case RomanConverter
  then show ?thesis
    by (simp add: Roman_convert_def length_table_convert romanNumerals_def)
next
  case ChineseConverter
  then show ?thesis
    by (simp add: Chinese_convert_def length_table_convert chineseNumerals_def)
next
  case ThaiConverter
  then show ?thesis
    by (simp add: Thai_convert_def length_table_convert thaiNumerals_def)
qed

lemma iterate_reaches_end:
  "fst st \<le> length input \<Longrightarrow>
   \<exists>n out. n \<le> length input - fst st \<and>
     iterate n (reverse_body c sg input) st = Some (length input, out) \<and>
     reverse_loop c sg input st = Some out \<and>
     (\<forall>m<n. \<exists>j os. iterate m (reverse_body c sg input) st = Some (j, os) \<and> j < length input)"
proof (induction c sg input st rule: reverse_loop.induct)
  case (1 c sg input i os)
  show ?case
  proof (cases "i < length input")
    case False
    with "1.prems" have "i = length input" by simp
    then have "0 \<le> length input - fst (i, os) \<and>
      iterate 0 (reverse_body c sg input) (i, os) = Some (length input, os) \<and>
      reverse_loop c sg input (i, os) = Some os \<and>
      (\<forall>m<0. \<exists>j os'. iterate m (reverse_body c sg input) (i, os) = Some (j, os') \<and> j < length input)"
      by simp
    then show ?thesis by blast
  next
    case True
    let ?st = "step_of c sg input (i, os)"
    have b: "reverse_body c sg input (i, os) = Some ?st"
      using True by (rule reverse_body_eq)
    have adv: "i < fst ?st" "fst ?st \<le> length input"
      using step_of_advance [OF True] by simp_all
    from "1.IH" [OF True b adv(2)] obtain n out where
      n: "n \<le> length input - fst ?st"
        "iterate n (reverse_body c sg input) ?st = Some (length input, out)"
        "reverse_loop c sg input ?st = Some out"
        "\<forall>m<n. \<exists>j os'. iterate m (reverse_body c sg input) ?st = Some (j, os') \<and> j < length input"
      by blast
    have "Suc n \<le> length input - fst (i, os)"
      using n(1) adv by simp
    moreover have "iterate (Suc n) (reverse_body c sg input) (i, os) = Some (length input, out)"
      using b n(2) by simp
    moreover have "reverse_loop c sg input (i, os) = Some out"
      using True b n(3) by simp
    moreover have "\<forall>m<Suc n. \<exists>j os'.
        iterate m (reverse_body c sg input) (i, os) = Some (j, os') \<and> j < length input"
    proof (intro allI impI)
      fix m
      assume m: "m < Suc n"
      show "\<exists>j os'. iterate m (reverse_body c sg input) (i, os) = Some (j, os') \<and> j < length input"
      proof (cases m)
        case 0
        with True show ?thesis by simp
      next
        case (Suc m')
        with m have "m' < n" by simp
        with n(4) obtain j os' where
          "iterate m' (reverse_body c sg input) ?st = Some (j, os') \<and> j < length input"
          by blast
        with b Suc show ?thesis by simp
      qed
    qed
    ultimately show ?thesis by blast
  qed
qed

text \<open>
  C7. For every converter and every byte sequence \<open>s\<close>, well-formed UTF-8 or not,
  \<^verbatim>\<open>reverse\<close> returns a result without reading outside \<open>s\<close> (the model's reads fail
  outside, and the result is \<open>Some\<close>), and the result is no longer than \<open>s\<close>. At a
  position with fewer than three bytes left nothing matches: the iteration copies the
  one byte at the position and moves on by one.
\<close>

theorem reverse_defined_in_bounds:
  "(\<exists>out. reverse c sg s = Some out \<and> length out \<le> length s) \<and>
   (i < length s \<and> length s < i + 3 \<longrightarrow>
      match_at c sg s i = None \<and>
      reverse_body c sg s (i, os) = Some (i + 1, os @ [s ! i]))"
proof -
  have "reverse c sg s = Some (scan c sg s) \<and> length (scan c sg s) \<le> length s"
    by (simp add: reverse_scan length_scan)
  moreover have "match_at c sg s i = None \<and>
      reverse_body c sg s (i, os) = Some (i + 1, os @ [s ! i])"
    if "i < length s" "length s < i + 3"
    using that by (simp add: reverse_body_eq step_of_def match_at_def)
  ultimately show ?thesis by blast
qed

theorem reverse_defined_in_bounds_witness:
  "(\<exists>out. reverse ThaiConverter True [0x41, 0xE0, 0xB9] = Some out \<and>
      length out \<le> length [0x41, 0xE0, 0xB9 :: byte]) \<and>
   (1 < length [0x41, 0xE0, 0xB9 :: byte] \<and> length [0x41, 0xE0, 0xB9 :: byte] < 1 + 3) \<and>
   match_at ThaiConverter True [0x41, 0xE0, 0xB9] 1 = None \<and>
   reverse_body ThaiConverter True [0x41, 0xE0, 0xB9] (1, [0x41]) =
     Some (1 + 1, [0x41] @ [[0x41, 0xE0, 0xB9] ! 1]) \<and>
   reverse ThaiConverter True [0x41, 0xE0, 0xB9] = Some [0x41, 0xE0, 0xB9]"
proof -
  have e: "reverse ThaiConverter True [0x41, 0xE0, 0xB9] = Some [0x41, 0xE0, 0xB9]"
    by code_simp
  have h: "1 < length [0x41, 0xE0, 0xB9 :: byte] \<and> length [0x41, 0xE0, 0xB9 :: byte] < 1 + 3"
    by simp
  from reverse_defined_in_bounds [of ThaiConverter True "[0x41, 0xE0, 0xB9]" 1 "[0x41]"] h e
  show ?thesis by blast
qed

text \<open>
  C9. Encoding and decoding end on every input. \<^verbatim>\<open>convert\<close> writes one wide character
  per input byte. Every iteration of a \<^verbatim>\<open>reverse\<close> loop that starts inside the input
  returns a state with a larger scan position, still within the input; the loop
  reaches the end of the input, and with it its result, after at most \<open>length s\<close>
  iterations, every earlier iteration starting inside the input.
\<close>

theorem encode_decode_terminate:
  "length (convert c sg s) = length s \<and>
   (i < length s \<longrightarrow>
      (\<exists>i' os'. reverse_body c sg s (i, os) = Some (i', os') \<and> i < i' \<and> i' \<le> length s)) \<and>
   (\<exists>n out. n \<le> length s \<and>
      iterate n (reverse_body c sg s) (0, []) = Some (length s, out) \<and>
      reverse c sg s = Some out \<and>
      (\<forall>m<n. \<exists>j os'. iterate m (reverse_body c sg s) (0, []) = Some (j, os') \<and> j < length s))"
proof -
  have "\<exists>i' os'. reverse_body c sg s (i, os) = Some (i', os') \<and> i < i' \<and> i' \<le> length s"
    if "i < length s"
    using reverse_body_eq [OF that, of c sg os] step_of_advance [OF that, of c sg os]
    by (cases "step_of c sg s (i, os)") simp
  moreover have "\<exists>n out. n \<le> length s \<and>
      iterate n (reverse_body c sg s) (0, []) = Some (length s, out) \<and>
      reverse c sg s = Some out \<and>
      (\<forall>m<n. \<exists>j os'. iterate m (reverse_body c sg s) (0, []) = Some (j, os') \<and> j < length s)"
    using iterate_reaches_end [of "(0, [])" s c sg] by (simp add: reverse_def del: reverse_loop.simps)
  ultimately show ?thesis
    by (simp add: length_convert)
qed

theorem encode_decode_terminate_witness:
  "length (convert CircleConverter True [0xE2, 0x91, 0xA4, 0x41]) =
     length [0xE2, 0x91, 0xA4, 0x41 :: byte] \<and>
   0 < length [0xE2, 0x91, 0xA4, 0x41 :: byte] \<and>
   (\<exists>i' os'. reverse_body CircleConverter True [0xE2, 0x91, 0xA4, 0x41] (0, []) = Some (i', os') \<and>
      0 < i' \<and> i' \<le> length [0xE2, 0x91, 0xA4, 0x41 :: byte]) \<and>
   (\<exists>n out. n \<le> length [0xE2, 0x91, 0xA4, 0x41 :: byte] \<and>
      iterate n (reverse_body CircleConverter True [0xE2, 0x91, 0xA4, 0x41]) (0, []) =
        Some (length [0xE2, 0x91, 0xA4, 0x41 :: byte], out) \<and>
      reverse CircleConverter True [0xE2, 0x91, 0xA4, 0x41] = Some out \<and>
      (\<forall>m<n. \<exists>j os'.
         iterate m (reverse_body CircleConverter True [0xE2, 0x91, 0xA4, 0x41]) (0, []) =
           Some (j, os') \<and> j < length [0xE2, 0x91, 0xA4, 0x41 :: byte])) \<and>
   reverse CircleConverter True [0xE2, 0x91, 0xA4, 0x41] = Some [0x35, 0x41]"
proof -
  have e: "reverse CircleConverter True [0xE2, 0x91, 0xA4, 0x41] = Some [0x35, 0x41]"
    by code_simp
  have h: "0 < length [0xE2, 0x91, 0xA4, 0x41 :: byte]"
    by simp
  from encode_decode_terminate [of CircleConverter True "[0xE2, 0x91, 0xA4, 0x41]" 0 "[]"] h e
  show ?thesis by blast
qed

section \<open>Identity on what is not a digit\<close>

lemma convert_non_digit:
  "\<not> is_ascii_digit sg b \<Longrightarrow> convert c sg (b # s) = to_wchar (char_int sg b) # convert c sg s"
  by (cases c) (simp_all add: Roman_convert_def Chinese_convert_def Thai_convert_def)

lemma encode_ascii_non_digit:
  "b < 0x80 \<Longrightarrow> \<not> is_ascii_digit sg b \<Longrightarrow>
   encode c sg (b # s) = (b # fst (encode c sg s), snd (encode c sg s))"
  by (simp add: encode_def convert_non_digit ascii_char_int utf8_ascii)

lemma encode_Nil: "encode c sg [] = ([], True)"
  by (cases c) (simp_all add: encode_def Roman_convert_def Chinese_convert_def Thai_convert_def)

text \<open>
  On ASCII bytes every \<^verbatim>\<open>convert\<close> does pass through what is not a digit: such a byte
  (below \<^verbatim>\<open>0x80\<close>) at the head of the input comes out as itself, followed by the
  encoding of the rest, and an input of such bytes only comes out unchanged, the
  stream staying good.
\<close>

lemma encode_identity_on_ascii_non_digits:
  "(b < 0x80 \<and> \<not> is_ascii_digit sg b \<longrightarrow>
      encode c sg (b # s) = (b # fst (encode c sg s), snd (encode c sg s))) \<and>
   ((\<forall>b \<in> set s. b < 0x80 \<and> \<not> is_ascii_digit sg b) \<longrightarrow> encode c sg s = (s, True))"
proof -
  have "encode c sg s = (s, True)" if "\<forall>b \<in> set s. b < 0x80 \<and> \<not> is_ascii_digit sg b"
    using that by (induction s) (simp_all add: encode_Nil encode_ascii_non_digit)
  then show ?thesis
    by (simp add: encode_ascii_non_digit)
qed

lemma encode_identity_on_ascii_non_digits_example:
  "(0x2D < (0x80 :: byte) \<and> \<not> is_ascii_digit True 0x2D) \<and>
   encode ThaiConverter True (0x2D # bytes_of ''7z'') =
     (0x2D # fst (encode ThaiConverter True (bytes_of ''7z'')),
      snd (encode ThaiConverter True (bytes_of ''7z''))) \<and>
   (list_all (\<lambda>b. b < 0x80 \<and> \<not> is_ascii_digit True b) (bytes_of ''a-b c'')) \<and>
   encode ThaiConverter True (bytes_of ''a-b c'') = (bytes_of ''a-b c'', True)"
proof -
  have h1: "0x2D < (0x80 :: byte) \<and> \<not> is_ascii_digit True 0x2D"
    by code_simp
  have h2: "list_all (\<lambda>b. b < 0x80 \<and> \<not> is_ascii_digit True b) (bytes_of ''a-b c'')"
    by code_simp
  then have h3: "\<forall>b \<in> set (bytes_of ''a-b c''). b < 0x80 \<and> \<not> is_ascii_digit True b"
    by (simp only: list_all_iff)
  from encode_identity_on_ascii_non_digits [of "0x2D" True ThaiConverter "bytes_of ''7z''"]
    encode_identity_on_ascii_non_digits [of "0x2D" True ThaiConverter "bytes_of ''a-b c''"]
    h1 h2 h3
  show ?thesis by blast
qed

text \<open>
  C5. Encode is to copy every byte that is not an ASCII digit, bytes outside the ASCII
  range included. The \<^verbatim>\<open>else\<close> branch of every \<^verbatim>\<open>convert\<close> does not: it widens each
  \<^verbatim>\<open>char\<close> on its own. The two bytes C3 A9 (the UTF-8 form of U+00E9) contain no ASCII
  digit; they are written as the wide characters \<^verbatim>\<open>0xFFFFFFC3\<close>, \<^verbatim>\<open>0xFFFFFFA9\<close> where
  \<^verbatim>\<open>char\<close> is signed (no code points: the stream writes nothing) and as U+00C3, U+00A9
  where it is unsigned (the four bytes C3 83 C2 A9 come out). In neither case does the
  input come out unchanged, while \<^verbatim>\<open>reverse\<close> copies the same two bytes verbatim.
\<close>

theorem encode_non_ascii_not_copied:
  "\<not> is_ascii_digit True 0xC3 \<and> \<not> is_ascii_digit True 0xA9 \<and>
   \<not> is_ascii_digit False 0xC3 \<and> \<not> is_ascii_digit False 0xA9 \<and>
   convert FullWidthConverter True [0xC3, 0xA9] = [0xFFFFFFC3, 0xFFFFFFA9] \<and>
   convert CircleConverter True [0xC3, 0xA9] = [0xFFFFFFC3, 0xFFFFFFA9] \<and>
   convert RomanConverter True [0xC3, 0xA9] = [0xFFFFFFC3, 0xFFFFFFA9] \<and>
   convert ChineseConverter True [0xC3, 0xA9] = [0xFFFFFFC3, 0xFFFFFFA9] \<and>
   convert ThaiConverter True [0xC3, 0xA9] = [0xFFFFFFC3, 0xFFFFFFA9] \<and>
   convert FullWidthConverter False [0xC3, 0xA9] = [0xC3, 0xA9] \<and>
   convert CircleConverter False [0xC3, 0xA9] = [0xC3, 0xA9] \<and>
   convert RomanConverter False [0xC3, 0xA9] = [0xC3, 0xA9] \<and>
   convert ChineseConverter False [0xC3, 0xA9] = [0xC3, 0xA9] \<and>
   convert ThaiConverter False [0xC3, 0xA9] = [0xC3, 0xA9] \<and>
   utf8_encode 0xE9 = Some [0xC3, 0xA9] \<and>
   utf8_encode 0xC3 = Some [0xC3, 0x83] \<and>
   utf8_encode 0xA9 = Some [0xC2, 0xA9] \<and>
   encode FullWidthConverter True [0xC3, 0xA9] = ([], False) \<and>
   encode CircleConverter True [0xC3, 0xA9] = ([], False) \<and>
   encode RomanConverter True [0xC3, 0xA9] = ([], False) \<and>
   encode ChineseConverter True [0xC3, 0xA9] = ([], False) \<and>
   encode ThaiConverter True [0xC3, 0xA9] = ([], False) \<and>
   encode FullWidthConverter False [0xC3, 0xA9] = ([0xC3, 0x83, 0xC2, 0xA9], True) \<and>
   encode CircleConverter False [0xC3, 0xA9] = ([0xC3, 0x83, 0xC2, 0xA9], True) \<and>
   encode RomanConverter False [0xC3, 0xA9] = ([0xC3, 0x83, 0xC2, 0xA9], True) \<and>
   encode ChineseConverter False [0xC3, 0xA9] = ([0xC3, 0x83, 0xC2, 0xA9], True) \<and>
   encode ThaiConverter False [0xC3, 0xA9] = ([0xC3, 0x83, 0xC2, 0xA9], True) \<and>
   fst (encode FullWidthConverter True [0xC3, 0xA9]) \<noteq> [0xC3, 0xA9] \<and>
   fst (encode FullWidthConverter False [0xC3, 0xA9]) \<noteq> [0xC3, 0xA9] \<and>
   reverse FullWidthConverter True [0xC3, 0xA9] = Some [0xC3, 0xA9] \<and>
   reverse FullWidthConverter False [0xC3, 0xA9] = Some [0xC3, 0xA9]"
  by code_simp

lemma decorative_both:
  "\<forall>sg \<in> {True, False}.
     decorative FullWidthConverter sg =
       [[0xEF, 0xBC, 0x90], [0xEF, 0xBC, 0x91], [0xEF, 0xBC, 0x92], [0xEF, 0xBC, 0x93],
        [0xEF, 0xBC, 0x94], [0xEF, 0xBC, 0x95], [0xEF, 0xBC, 0x96], [0xEF, 0xBC, 0x97],
        [0xEF, 0xBC, 0x98], [0xEF, 0xBC, 0x99]] \<and>
     decorative CircleConverter sg =
       [[0xE2, 0x93, 0xAA], [0xE2, 0x91, 0xA0], [0xE2, 0x91, 0xA1], [0xE2, 0x91, 0xA2],
        [0xE2, 0x91, 0xA3], [0xE2, 0x91, 0xA4], [0xE2, 0x91, 0xA5], [0xE2, 0x91, 0xA6],
        [0xE2, 0x91, 0xA7], [0xE2, 0x91, 0xA8]] \<and>
     decorative RomanConverter sg =
       [[0xEF, 0xBC, 0x90], [0xE2, 0x85, 0xA0], [0xE2, 0x85, 0xA1], [0xE2, 0x85, 0xA2],
        [0xE2, 0x85, 0xA3], [0xE2, 0x85, 0xA4], [0xE2, 0x85, 0xA5], [0xE2, 0x85, 0xA6],
        [0xE2, 0x85, 0xA7], [0xE2, 0x85, 0xA8]] \<and>
     decorative ChineseConverter sg =
       [[0xE3, 0x80, 0x87], [0xE4, 0xB8, 0x80], [0xE4, 0xBA, 0x8C], [0xE4, 0xB8, 0x89],
        [0xE5, 0x9B, 0x9B], [0xE4, 0xBA, 0x94], [0xE5, 0x85, 0xAD], [0xE4, 0xB8, 0x83],
        [0xE5, 0x85, 0xAB], [0xE4, 0xB9, 0x9D]] \<and>
     decorative ThaiConverter sg =
       [[0xE0, 0xB9, 0x90], [0xE0, 0xB9, 0x91], [0xE0, 0xB9, 0x92], [0xE0, 0xB9, 0x93],
        [0xE0, 0xB9, 0x94], [0xE0, 0xB9, 0x95], [0xE0, 0xB9, 0x96], [0xE0, 0xB9, 0x97],
        [0xE0, 0xB9, 0x98], [0xE0, 0xB9, 0x99]]"
  by code_simp

lemmas decorative_values = decorative_both [simplified]

lemma range_90_99:
  "0x90 \<le> b \<and> b \<le> 0x99 \<Longrightarrow>
   (b :: byte) \<in> {0x90, 0x91, 0x92, 0x93, 0x94, 0x95, 0x96, 0x97, 0x98, 0x99}"
proof -
  have "0x90 \<le> uint b \<and> uint b \<le> 0x99 \<Longrightarrow>
        uint b \<in> {0x90, 0x91, 0x92, 0x93, 0x94, 0x95, 0x96, 0x97, 0x98, 0x99}"
    by (simp only: insert_iff empty_iff) arith
  then show "0x90 \<le> b \<and> b \<le> 0x99 \<Longrightarrow> ?thesis"
    by (simp add: word_le_def word_uint_eq_iff)
qed

lemma range_A0_A8:
  "0xA0 \<le> b \<and> b \<le> 0xA8 \<Longrightarrow>
   (b :: byte) \<in> {0xA0, 0xA1, 0xA2, 0xA3, 0xA4, 0xA5, 0xA6, 0xA7, 0xA8}"
proof -
  have "0xA0 \<le> uint b \<and> uint b \<le> 0xA8 \<Longrightarrow>
        uint b \<in> {0xA0, 0xA1, 0xA2, 0xA3, 0xA4, 0xA5, 0xA6, 0xA7, 0xA8}"
    by (simp only: insert_iff empty_iff) arith
  then show "0xA0 \<le> b \<and> b \<le> 0xA8 \<Longrightarrow> ?thesis"
    by (simp add: word_le_def word_uint_eq_iff)
qed

lemma match3_decorative:
  assumes "match3 c sg b0 b1 b2 = Some d"
  shows "[b0, b1, b2] \<in> set (decorative c sg) \<or>
         (c = CircleConverter \<and> [b0, b1, b2] = [0xE2, 0x92, 0xAA])"
proof (cases c)
  case FullWidthConverter
  with assms have "b0 = 0xEF" "b1 = 0xBC" "0x90 \<le> b2 \<and> b2 \<le> 0x99"
    by (simp_all split: if_splits)
  with range_90_99 [of b2] FullWidthConverter show ?thesis
    using decorative_values by (cases sg) auto
next
  case CircleConverter
  with assms have "b0 = 0xE2 \<and> b1 = 0x91 \<and> (0xA0 \<le> b2 \<and> b2 \<le> 0xA8) \<or>
      b0 = 0xE2 \<and> b1 = 0x92 \<and> b2 = 0xAA"
    by (simp split: if_splits)
  with range_A0_A8 [of b2] CircleConverter show ?thesis
    using decorative_values by (cases sg) auto
next
  case RomanConverter
  with assms have "[b0, b1, b2] = [0xEF, 0xBC, 0x90] \<or> [b0, b1, b2] = [0xE2, 0x85, 0xA0]"
    by (simp split: if_splits)
  with RomanConverter show ?thesis
    using decorative_values by (cases sg) auto
next
  case ChineseConverter
  with assms have "[b0, b1, b2] = [0xE3, 0x80, 0x87] \<or> [b0, b1, b2] = [0xE4, 0xB8, 0x80]"
    by (simp split: if_splits)
  with ChineseConverter show ?thesis
    using decorative_values by (cases sg) auto
next
  case ThaiConverter
  with assms have "b0 = 0xE0" "b1 = 0xB9" "0x90 \<le> b2 \<and> b2 \<le> 0x99"
    by (simp_all split: if_splits)
  with range_90_99 [of b2] ThaiConverter show ?thesis
    using decorative_values by (cases sg) auto
qed

lemma scan_no_match:
  "(\<And>b0 b1 b2. sublist [b0, b1, b2] s \<Longrightarrow> match3 c sg b0 b1 b2 = None) \<Longrightarrow>
   scan c sg s = s"
proof (induction c sg s rule: scan.induct)
  case (1 c sg b0 b1 b2 rest)
  have "sublist [b0, b1, b2] (b0 # b1 # b2 # rest)"
    by (rule prefix_imp_sublist) simp
  then have m: "match3 c sg b0 b1 b2 = None" by (rule "1.prems")
  have "scan c sg (b1 # b2 # rest) = b1 # b2 # rest"
  proof (rule "1.IH"(1) [OF m])
    fix a0 a1 a2
    assume "sublist [a0, a1, a2] (b1 # b2 # rest)"
    then have "sublist [a0, a1, a2] (b0 # b1 # b2 # rest)"
      by (simp add: sublist_Cons_right [of _ b0])
    then show "match3 c sg a0 a1 a2 = None" by (rule "1.prems")
  qed
  with m show ?case by simp
qed simp_all

text \<open>
  Apart from the bytes E2 92 AA under the circle converter, \<^verbatim>\<open>reverse\<close> is the identity
  on every input in which no decorative digit of the converter occurs.
\<close>

lemma reverse_identity_without_patterns:
  assumes "\<not> has_decorative c sg s"
    and "c = CircleConverter \<longrightarrow> \<not> sublist [0xE2, 0x92, 0xAA] s"
  shows "reverse c sg s = Some s"
proof -
  have "match3 c sg b0 b1 b2 = None" if sub: "sublist [b0, b1, b2] s" for b0 b1 b2
  proof (cases "match3 c sg b0 b1 b2")
    case None
    then show ?thesis .
  next
    case (Some d)
    from match3_decorative [OF Some] sub assms have False
      by (auto simp: has_decorative_def)
    then show ?thesis ..
  qed
  then have "scan c sg s = s" by (rule scan_no_match)
  then show ?thesis by (simp add: reverse_scan)
qed

lemma circle_parenthesized_o_both:
  "\<forall>sg \<in> {True, False}.
     \<not> has_decorative CircleConverter sg [0xE2, 0x92, 0xAA] \<and>
     decorative CircleConverter sg =
       [[0xE2, 0x93, 0xAA], [0xE2, 0x91, 0xA0], [0xE2, 0x91, 0xA1], [0xE2, 0x91, 0xA2],
        [0xE2, 0x91, 0xA3], [0xE2, 0x91, 0xA4], [0xE2, 0x91, 0xA5], [0xE2, 0x91, 0xA6],
        [0xE2, 0x91, 0xA7], [0xE2, 0x91, 0xA8]] \<and>
     reverse CircleConverter sg [0xE2, 0x92, 0xAA] = Some [0x30]"
  by code_simp

text \<open>
  C6. The circled digits that \<^verbatim>\<open>convert\<close> produces are E2 93 AA for zero and E2 91 A0
  to E2 91 A8 for one to nine. The three bytes E2 92 AA (U+24AA) contain none of them,
  yet the circle \<^verbatim>\<open>reverse\<close> does not copy them through: its zero branch tests for
  exactly these bytes and writes \<^verbatim>\<open>0\<close>.
\<close>

theorem circle_decodes_unrelated_bytes:
  "decorative CircleConverter sg =
       [[0xE2, 0x93, 0xAA], [0xE2, 0x91, 0xA0], [0xE2, 0x91, 0xA1], [0xE2, 0x91, 0xA2],
        [0xE2, 0x91, 0xA3], [0xE2, 0x91, 0xA4], [0xE2, 0x91, 0xA5], [0xE2, 0x91, 0xA6],
        [0xE2, 0x91, 0xA7], [0xE2, 0x91, 0xA8]] \<and>
   \<not> has_decorative CircleConverter sg [0xE2, 0x92, 0xAA] \<and>
   reverse CircleConverter sg [0xE2, 0x92, 0xAA] = Some (bytes_of ''0'') \<and>
   reverse CircleConverter sg [0xE2, 0x92, 0xAA] \<noteq> Some [0xE2, 0x92, 0xAA]"
  using circle_parenthesized_o_both by (cases sg) (simp_all add: bytes_of_def)

lemma digit_round_trips_both:
  "\<forall>sg \<in> {True, False}.
     map (\<lambda>d. round_trips FullWidthConverter sg [d]) digits =
       [True, True, True, True, True, True, True, True, True, True] \<and>
     map (\<lambda>d. round_trips CircleConverter sg [d]) digits =
       [False, True, True, True, True, True, True, True, True, True] \<and>
     map (\<lambda>d. round_trips RomanConverter sg [d]) digits =
       [True, True, False, False, False, False, False, False, False, False] \<and>
     map (\<lambda>d. round_trips ChineseConverter sg [d]) digits =
       [True, True, False, False, False, False, False, False, False, False] \<and>
     map (\<lambda>d. round_trips ThaiConverter sg [d]) digits =
       [True, True, True, True, True, True, True, True, True, True] \<and>
     encode RomanConverter sg [0x32] = ([0xE2, 0x85, 0xA1], True) \<and>
     reverse RomanConverter sg [0xE2, 0x85, 0xA1] = Some [0xE2, 0x85, 0xA1]"
  by code_simp

lemma table_convert_append:
  "table_convert numerals sg (xs @ ys) = table_convert numerals sg xs @ table_convert numerals sg ys"
  by (induction xs) simp_all

lemma convert_append: "convert c sg (xs @ ys) = convert c sg xs @ convert c sg ys"
proof (cases c)
  case FullWidthConverter
  then show ?thesis by (induction xs) simp_all
next
  case CircleConverter
  then show ?thesis by (induction xs) simp_all
qed (simp_all add: Roman_convert_def Chinese_convert_def Thai_convert_def table_convert_append)

lemma wcout_bytes_append:
  "snd (wcout_bytes xs) \<Longrightarrow>
   wcout_bytes (xs @ ys) = (fst (wcout_bytes xs) @ fst (wcout_bytes ys), snd (wcout_bytes ys))"
  by (induction xs) (simp_all split: option.splits)

lemma encode_Cons:
  "snd (encode c sg [b]) \<Longrightarrow>
   encode c sg (b # s) = (fst (encode c sg [b]) @ fst (encode c sg s), snd (encode c sg s))"
  using convert_append [of c sg "[b]" s] by (simp add: encode_def wcout_bytes_append)

lemma digit_encodings_both:
  "\<forall>sg \<in> {True, False}. \<forall>c \<in> {FullWidthConverter, CircleConverter, RomanConverter,
       ChineseConverter, ThaiConverter}. \<forall>d \<in> set digits.
     snd (encode c sg [d]) \<and> length (fst (encode c sg [d])) = 3"
  by code_simp

lemma digit_encoding:
  assumes "is_ascii_digit sg d"
  shows "snd (encode c sg [d]) \<and> length (fst (encode c sg [d])) = 3"
proof -
  from assms have "d \<in> set digits"
    by (simp add: is_ascii_digit_iff digit_byte_cases digits_def)
  moreover have "c \<in> {FullWidthConverter, CircleConverter, RomanConverter,
       ChineseConverter, ThaiConverter}"
    by (cases c) simp_all
  moreover have "sg \<in> {True, False}" by simp
  ultimately show ?thesis using digit_encodings_both by blast
qed

lemma match3_ascii: "b0 < 0x80 \<Longrightarrow> match3 c sg b0 b1 b2 = None"
  by (cases c) (auto simp: word_less_def)

lemma scan_ascii: "b < 0x80 \<Longrightarrow> scan c sg (b # bs) = b # scan c sg bs"
proof (cases "length bs < 2")
  case True
  then show ?thesis by (simp add: scan_short)
next
  case False
  then obtain b1 b2 rest where "bs = b1 # b2 # rest"
    by (cases bs; cases "tl bs") auto
  moreover assume "b < 0x80"
  ultimately show ?thesis by (simp add: match3_ascii)
qed

lemma scan_digit:
  assumes "length p = 3" and "scan c sg p = [d]"
  shows "scan c sg (p @ bs) = d # scan c sg bs"
proof -
  from assms(1) obtain p0 p1 p2 where p: "p = [p0, p1, p2]"
    by (cases p; cases "tl p"; cases "tl (tl p)") auto
  with assms(2) have "match3 c sg p0 p1 p2 = Some d"
    by (cases "match3 c sg p0 p1 p2") simp_all
  with p show ?thesis by simp
qed

text \<open>
  A string of ASCII bytes comes back from \<^verbatim>\<open>reverse\<close> after \<^verbatim>\<open>convert\<close> as soon as each
  of its digits does on its own.
\<close>

lemma round_trip_ascii:
  assumes "\<forall>b \<in> set s. b < 0x80 \<and> (is_ascii_digit sg b \<longrightarrow> round_trips c sg [b])"
  shows "round_trips c sg s \<and> snd (encode c sg s)"
proof -
  from assms have "scan c sg (fst (encode c sg s)) = s \<and> snd (encode c sg s)"
  proof (induction s)
    case Nil
    then show ?case by (simp add: encode_Nil)
  next
    case (Cons b s)
    then have IH: "scan c sg (fst (encode c sg s)) = s" "snd (encode c sg s)"
      and b: "b < 0x80" by simp_all
    show ?case
    proof (cases "is_ascii_digit sg b")
      case False
      with b IH show ?thesis
        by (simp add: encode_ascii_non_digit scan_ascii)
    next
      case True
      with Cons.prems have "round_trips c sg [b]" by simp
      then have r: "scan c sg (fst (encode c sg [b])) = [b]"
        by (simp add: round_trips_def reverse_scan)
      from digit_encoding [OF True, of c]
      have g: "snd (encode c sg [b])" and l: "length (fst (encode c sg [b])) = 3"
        by simp_all
      from encode_Cons [OF g, of s] IH scan_digit [OF l r, of "fst (encode c sg s)"]
      show ?thesis by simp
    qed
  qed
  then show ?thesis by (simp add: round_trips_def reverse_scan)
qed

lemma round_trip_fullwidth_thai:
  assumes "c = FullWidthConverter \<or> c = ThaiConverter" and "\<forall>b \<in> set s. b < 0x80"
  shows "round_trips c sg s"
proof -
  have "round_trips c sg [b]" if "is_ascii_digit sg b" for b
  proof -
    from that have "b \<in> set digits"
      by (simp add: is_ascii_digit_iff digit_byte_cases digits_def)
    with assms(1) digit_round_trips_both show ?thesis
      by (cases sg) (auto simp: digits_def)
  qed
  with assms(2) round_trip_ascii [of s sg c] show ?thesis by blast
qed

text \<open>
  C1. Which single digits come back from \<^verbatim>\<open>reverse\<close> after \<^verbatim>\<open>convert\<close>: all ten for the
  fullwidth and Thai converters; all but \<^verbatim>\<open>0\<close> for the circle converter; only \<^verbatim>\<open>0\<close> and
  \<^verbatim>\<open>1\<close> for the Roman and Chinese converters. The Roman converter, for one, writes
  \<^verbatim>\<open>2\<close> as U+2161, the bytes E2 85 A1, and its \<^verbatim>\<open>reverse\<close> copies these bytes through.
\<close>

theorem digit_round_trips:
  "map (\<lambda>d. round_trips FullWidthConverter sg [d]) digits =
     [True, True, True, True, True, True, True, True, True, True] \<and>
   map (\<lambda>d. round_trips CircleConverter sg [d]) digits =
     [False, True, True, True, True, True, True, True, True, True] \<and>
   map (\<lambda>d. round_trips RomanConverter sg [d]) digits =
     [True, True, False, False, False, False, False, False, False, False] \<and>
   map (\<lambda>d. round_trips ChineseConverter sg [d]) digits =
     [True, True, False, False, False, False, False, False, False, False] \<and>
   map (\<lambda>d. round_trips ThaiConverter sg [d]) digits =
     [True, True, True, True, True, True, True, True, True, True] \<and>
   encode RomanConverter sg (bytes_of ''2'') = ([0xE2, 0x85, 0xA1], True) \<and>
   reverse RomanConverter sg [0xE2, 0x85, 0xA1] = Some [0xE2, 0x85, 0xA1] \<and>
   reverse RomanConverter sg [0xE2, 0x85, 0xA1] \<noteq> Some (bytes_of ''2'')"
  using digit_round_trips_both by (cases sg) (simp_all add: bytes_of_def)

section \<open>Concrete scenarios\<close>

lemma fullwidth_abc123_both:
  "\<forall>sg \<in> {True, False}.
     encode FullWidthConverter sg (bytes_of ''abc123'') =
       ([0x61, 0x62, 0x63, 0xEF, 0xBC, 0x91, 0xEF, 0xBC, 0x92, 0xEF, 0xBC, 0x93], True) \<and>
     reverse FullWidthConverter sg
       [0x61, 0x62, 0x63, 0xEF, 0xBC, 0x91, 0xEF, 0xBC, 0x92, 0xEF, 0xBC, 0x93] =
       Some (bytes_of ''abc123'')"
  by code_simp

text \<open>
  C4. The fullwidth converter writes \<^verbatim>\<open>abc123\<close> as \<^verbatim>\<open>abc\<close> followed by the UTF-8 bytes of
  U+FF11, U+FF12 and U+FF13 (the stream stays good), and its \<^verbatim>\<open>reverse\<close> turns exactly
  these bytes back into \<^verbatim>\<open>abc123\<close>, whatever the signedness of \<^verbatim>\<open>char\<close>.
\<close>

theorem fullwidth_abc123:
  "encode FullWidthConverter sg (bytes_of ''abc123'') =
     (bytes_of ''abc'' @ [0xEF, 0xBC, 0x91] @ [0xEF, 0xBC, 0x92] @ [0xEF, 0xBC, 0x93], True) \<and>
   utf8_encode 0xFF11 = Some [0xEF, 0xBC, 0x91] \<and>
   utf8_encode 0xFF12 = Some [0xEF, 0xBC, 0x92] \<and>
   utf8_encode 0xFF13 = Some [0xEF, 0xBC, 0x93] \<and>
   reverse FullWidthConverter sg
     (bytes_of ''abc'' @ [0xEF, 0xBC, 0x91] @ [0xEF, 0xBC, 0x92] @ [0xEF, 0xBC, 0x93]) =
     Some (bytes_of ''abc123'')"
proof -
  have "bytes_of ''abc'' @ [0xEF, 0xBC, 0x91] @ [0xEF, 0xBC, 0x92] @ [0xEF, 0xBC, 0x93] =
        [0x61, 0x62, 0x63, 0xEF, 0xBC, 0x91, 0xEF, 0xBC, 0x92, 0xEF, 0xBC, 0x93]"
    by (simp add: bytes_of_def)
  moreover have "utf8_encode 0xFF11 = Some [0xEF, 0xBC, 0x91]"
    "utf8_encode 0xFF12 = Some [0xEF, 0xBC, 0x92]"
    "utf8_encode 0xFF13 = Some [0xEF, 0xBC, 0x93]"
    by (simp_all add: utf8_encode_def)
  ultimately show ?thesis
    using fullwidth_abc123_both by (cases sg) simp_all
qed

lemma circle_zero_both:
  "\<forall>sg \<in> {True, False}.
     encode CircleConverter sg [0x30] = ([0xE2, 0x93, 0xAA], True) \<and>
     reverse CircleConverter sg [0xE2, 0x93, 0xAA] = Some [0xE2, 0x93, 0xAA]"
  by code_simp

text \<open>
  C2. The circle converter writes \<^verbatim>\<open>0\<close> as U+24EA, the bytes E2 93 AA. Its \<^verbatim>\<open>reverse\<close>
  does not recognise these bytes: the zero branch compares the second byte with
  \<^verbatim>\<open>0x92\<close>, so E2 93 AA is copied through byte by byte and the result is not \<^verbatim>\<open>0\<close>.
\<close>

theorem circle_zero_not_decoded:
  "encode CircleConverter sg (bytes_of ''0'') = ([0xE2, 0x93, 0xAA], True) \<and>
   utf8_encode 0x24EA = Some [0xE2, 0x93, 0xAA] \<and>
   reverse CircleConverter sg [0xE2, 0x93, 0xAA] = Some [0xE2, 0x93, 0xAA] \<and>
   reverse CircleConverter sg [0xE2, 0x93, 0xAA] \<noteq> Some (bytes_of ''0'')"
proof -
  have "utf8_encode 0x24EA = Some [0xE2, 0x93, 0xAA]"
    by (simp add: utf8_encode_def)
  then show ?thesis
    using circle_zero_both by (cases sg) (simp_all add: bytes_of_def)
qed

lemma chinese_2024_both:
  "\<forall>sg \<in> {True, False}.
     encode ChineseConverter sg [0x32, 0x30, 0x32, 0x34] =
       ([0xE4, 0xBA, 0x8C, 0xE3, 0x80, 0x87, 0xE4, 0xBA, 0x8C, 0xE5, 0x9B, 0x9B], True) \<and>
     reverse ChineseConverter sg
       [0xE4, 0xBA, 0x8C, 0xE3, 0x80, 0x87, 0xE4, 0xBA, 0x8C, 0xE5, 0x9B, 0x9B] =
       Some [0xE4, 0xBA, 0x8C, 0x30, 0xE4, 0xBA, 0x8C, 0xE5, 0x9B, 0x9B]"
  by code_simp

text \<open>
  C3. The Chinese converter writes \<^verbatim>\<open>2024\<close> as U+4E8C U+3007 U+4E8C U+56DB. Its
  \<^verbatim>\<open>reverse\<close> knows the byte sequences of U+3007 and U+4E00 only: of the twelve bytes
  it turns E3 80 87 into \<^verbatim>\<open>0\<close> and copies the other nine through, so the result is
  not \<^verbatim>\<open>2024\<close>.
\<close>

theorem chinese_2024_not_decoded:
  "encode ChineseConverter sg (bytes_of ''2024'') =
     ([0xE4, 0xBA, 0x8C] @ [0xE3, 0x80, 0x87] @ [0xE4, 0xBA, 0x8C] @ [0xE5, 0x9B, 0x9B], True) \<and>
   map utf8_encode [0x4E8C, 0x3007, 0x4E8C, 0x56DB] =
     [Some [0xE4, 0xBA, 0x8C], Some [0xE3, 0x80, 0x87],
      Some [0xE4, 0xBA, 0x8C], Some [0xE5, 0x9B, 0x9B]] \<and>
   reverse ChineseConverter sg
     ([0xE4, 0xBA, 0x8C] @ [0xE3, 0x80, 0x87] @ [0xE4, 0xBA, 0x8C] @ [0xE5, 0x9B, 0x9B]) =
     Some ([0xE4, 0xBA, 0x8C] @ bytes_of ''0'' @ [0xE4, 0xBA, 0x8C] @ [0xE5, 0x9B, 0x9B]) \<and>
   reverse ChineseConverter sg
     ([0xE4, 0xBA, 0x8C] @ [0xE3, 0x80, 0x87] @ [0xE4, 0xBA, 0x8C] @ [0xE5, 0x9B, 0x9B]) \<noteq>
     Some (bytes_of ''2024'')"
proof -
  have "map utf8_encode [0x4E8C, 0x3007, 0x4E8C, 0x56DB] =
     [Some [0xE4, 0xBA, 0x8C], Some [0xE3, 0x80, 0x87],
      Some [0xE4, 0xBA, 0x8C], Some [0xE5, 0x9B, 0x9B]]"
    by (simp add: utf8_encode_def)
  then show ?thesis
    using chinese_2024_both by (cases sg) (simp_all add: bytes_of_def)
qed

lemma roman_zero_both:
  "\<forall>sg \<in> {True, False}.
     convert RomanConverter sg [0x30] = [0xFF10] \<and>
     convert FullWidthConverter sg [0x30] = [0xFF10] \<and>
     encode RomanConverter sg [0x30] = ([0xEF, 0xBC, 0x90], True) \<and>
     encode FullWidthConverter sg [0x30] = ([0xEF, 0xBC, 0x90], True) \<and>
     reverse RomanConverter sg [0xEF, 0xBC, 0x90] = Some [0x30]"
  by code_simp

text \<open>
  C10. The Roman converter writes the digit \<^verbatim>\<open>0\<close> as U+FF10, FULLWIDTH DIGIT ZERO,
  the bytes EF BC 90: the same wide character and the same bytes as the fullwidth
  converter writes for \<^verbatim>\<open>0\<close>. Its \<^verbatim>\<open>reverse\<close> turns EF BC 90 back into \<^verbatim>\<open>0\<close>.
\<close>

theorem roman_zero_is_fullwidth_zero:
  "convert RomanConverter sg (bytes_of ''0'') = [0xFF10] \<and>
   convert FullWidthConverter sg (bytes_of ''0'') = [0xFF10] \<and>
   encode RomanConverter sg (bytes_of ''0'') = ([0xEF, 0xBC, 0x90], True) \<and>
   encode RomanConverter sg (bytes_of ''0'') = encode FullWidthConverter sg (bytes_of ''0'') \<and>
   reverse RomanConverter sg [0xEF, 0xBC, 0x90] = Some (bytes_of ''0'')"
  using roman_zero_both by (cases sg) (simp_all add: bytes_of_def)

text \<open>
  C8. \<^verbatim>\<open>getConverter\<close> on the registry the constructor builds finds a converter
  exactly for the five registered names, compared character by character (so
  \<^verbatim>\<open>FullWidth\<close> is not \<^verbatim>\<open>fullwidth\<close>), and returns the null result, not an error, for
  every other name; \<^verbatim>\<open>not-a-real-type\<close> is not found.
\<close>

theorem getConverter_exact:
  "(getConverter ConverterRegistry name = Some c \<longleftrightarrow> name = getName c) \<and>
   (getConverter ConverterRegistry name = None \<longleftrightarrow>
      name \<notin> {''fullwidth'', ''circle'', ''roman'', ''chinese'', ''thai''}) \<and>
   getConverter ConverterRegistry ''not-a-real-type'' = None \<and>
   getConverter ConverterRegistry ''FullWidth'' = None"
  by (cases c) (auto simp: getConverter_def ConverterRegistry_def registerConverter_def)

end
